theory Spec2Isabelle
  imports Complex_Main "HOL-Library.Multiset" "HOL-Library.Product_Lexorder"
begin

unbundle bit_operations_syntax

section \<open>Conventions of the embedding\<close>

text \<open>
  The two services of the repository, \<^verbatim>\<open>project_1a.py\<close> (structure extraction) and
  \<^verbatim>\<open>project_1b.py\<close> (persona-driven ranking), are embedded function by function.

  \<^item> A Python \<^verbatim>\<open>str\<close> is a \<open>string\<close>; one \<open>char\<close> stands for one code point, so the
    embedding covers texts over the first 256 code points and \<open>length\<close> is Python's
    \<^verbatim>\<open>len\<close>.
  \<^item> A Python \<^verbatim>\<open>float\<close> (font sizes, coordinates, similarities) is a \<open>real\<close>: the
    comparisons of the source are exact on floats, rounding is not modelled.
  \<^item> The PDF decoder (PyMuPDF) and the vector-space library (scikit-learn) are outside
    the repository. A decoded document is a value of the record types below; the
    fitted transforms are an abstract state \<open>'m\<close>, and the two library pipelines are
    function parameters that return either an error (the call raised) or the array of
    cosine similarities.
  \<^item> A name of the source that starts with an underscore loses it
    (\<^verbatim>\<open>_score_sections\<close> is \<open>score_sections\<close>).
\<close>

datatype error = LibraryError | IndexError | ValueError

section \<open>Python string primitives\<close>

text \<open>\<^verbatim>\<open>str.isspace\<close> on one code point below 256.\<close>

definition is_space :: "char \<Rightarrow> bool" where
  "is_space c = ((of_char c :: nat) \<in> {9, 10, 11, 12, 13, 28, 29, 30, 31, 32, 133, 160})"

text \<open>\<^verbatim>\<open>s.strip()\<close>\<close>

definition strip :: "string \<Rightarrow> string" where
  "strip s = rev (dropWhile is_space (rev (dropWhile is_space s)))"

text \<open>
  \<^verbatim>\<open>str.lower\<close> on one code point below 256: the ASCII capitals and the accented
  capitals of the second half (the multiplication sign is not a letter).
\<close>

definition lower_char :: "char \<Rightarrow> char" where
  "lower_char c =
     (let n = (of_char c :: nat)
      in if (65 \<le> n \<and> n \<le> 90) \<or> (192 \<le> n \<and> n \<le> 222 \<and> n \<noteq> 215)
         then char_of (n + 32) else c)"

definition lower :: "string \<Rightarrow> string" where
  "lower s = map lower_char s"

text \<open>The character classes \<^verbatim>\<open>\d\<close>, \<^verbatim>\<open>[A-Z]\<close>, \<^verbatim>\<open>[a-z]\<close> and \<^verbatim>\<open>[a-zA-Z0-9]\<close>.\<close>

definition is_digit :: "char \<Rightarrow> bool" where
  "is_digit c = (48 \<le> (of_char c :: nat) \<and> (of_char c :: nat) \<le> 57)"

definition is_upper :: "char \<Rightarrow> bool" where
  "is_upper c = (65 \<le> (of_char c :: nat) \<and> (of_char c :: nat) \<le> 90)"

definition is_lower :: "char \<Rightarrow> bool" where
  "is_lower c = (97 \<le> (of_char c :: nat) \<and> (of_char c :: nat) \<le> 122)"

definition is_alnum :: "char \<Rightarrow> bool" where
  "is_alnum c = (is_lower c \<or> is_upper c \<or> is_digit c)"

text \<open>
  \<^verbatim>\<open>re.sub(r'^[^a-zA-Z0-9]*', '', s)\<close> followed by
  \<^verbatim>\<open>re.sub(r'[^a-zA-Z0-9]*$', '', s)\<close>.
\<close>

definition strip_leading_non_alnum :: "string \<Rightarrow> string" where
  "strip_leading_non_alnum s = dropWhile (\<lambda>c. \<not> is_alnum c) s"

definition strip_trailing_non_alnum :: "string \<Rightarrow> string" where
  "strip_trailing_non_alnum s = rev (dropWhile (\<lambda>c. \<not> is_alnum c) (rev s))"

text \<open>
  \<^verbatim>\<open>re.sub(r'[.]*$', '', s)\<close>: \<^verbatim>\<open>$\<close> also matches just before a newline that ends
  the string, so the dots in front of such a newline go and the newline stays.
\<close>

definition strip_trailing_dots :: "string \<Rightarrow> string" where
  "strip_trailing_dots s =
     (if s \<noteq> [] \<and> last s = CHR 0x0A
      then rev (dropWhile (\<lambda>c. c = CHR ''.'') (rev (butlast s))) @ [CHR 0x0A]
      else rev (dropWhile (\<lambda>c. c = CHR ''.'') (rev s)))"

text \<open>Pieces of the regular expressions: each returns the rest of the text after a match.\<close>

definition many1 :: "(char \<Rightarrow> bool) \<Rightarrow> string \<Rightarrow> string option" where
  "many1 P s = (if takeWhile P s = [] then None else Some (dropWhile P s))"

definition one :: "(char \<Rightarrow> bool) \<Rightarrow> string \<Rightarrow> string option" where
  "one P s = (case s of [] \<Rightarrow> None | c # r \<Rightarrow> if P c then Some r else None)"

definition opt_dot :: "string \<Rightarrow> string" where
  "opt_dot s = (case s of [] \<Rightarrow> s | c # r \<Rightarrow> if c = CHR ''.'' then r else s)"

definition lit :: "string \<Rightarrow> string \<Rightarrow> string option" where
  "lit w s = (if take (length w) s = w then Some (drop (length w) s) else None)"

definition lit_ignorecase :: "string \<Rightarrow> string \<Rightarrow> string option" where
  "lit_ignorecase w s =
     (if length w \<le> length s \<and> lower (take (length w) s) = lower w
      then Some (drop (length w) s) else None)"

text \<open>\<^verbatim>\<open>str(n)\<close> for an integer.\<close>

fun str_nat :: "nat \<Rightarrow> string" where
  "str_nat n = (if n < 10 then [char_of (48 + n)] else str_nat (n div 10) @ [char_of (48 + n mod 10)])"

definition str_int :: "int \<Rightarrow> string" where
  "str_int i = (if i < 0 then CHR ''-'' # str_nat (nat (- i)) else str_nat (nat i))"

text \<open>\<^verbatim>\<open>s.split('\n\n')\<close>: the separator is searched from the left, matches do not overlap.\<close>

fun split_blank :: "string \<Rightarrow> string list" where
  "split_blank [] = [[]]"
| "split_blank [c] = [[c]]"
| "split_blank (c # d # cs) =
     (if c = CHR 0x0A \<and> d = CHR 0x0A then [] # split_blank cs
      else (let r = split_blank (d # cs) in (c # hd r) # tl r))"

text \<open>\<^verbatim>\<open>'\n\n'.join(ps)\<close>, the inverse of the split.\<close>

definition join_blank :: "string list \<Rightarrow> string" where
  "join_blank ps = (case ps of [] \<Rightarrow> [] | p # rest \<Rightarrow> p @ concat (map (\<lambda>q. [CHR 0x0A, CHR 0x0A] @ q) rest))"

text \<open>
  \<^verbatim>\<open>xs.sort(key=key, reverse=True)\<close>: Python reverses the list, sorts it stably in
  ascending order and reverses the result, so equal keys keep their original order.
\<close>

definition py_sort_reverse :: "('a \<Rightarrow> 'k::linorder) \<Rightarrow> 'a list \<Rightarrow> 'a list" where
  "py_sort_reverse key xs = rev (sort_key key (rev xs))"

section \<open>project_1b: data\<close>

record section_rec =
  document :: string
  page_number :: nat
  section_title :: string
  content :: string

text \<open>
  The source stores the similarity under the key \<^verbatim>\<open>"importance_rank"\<close> of a copy of the
  section, sorts on it, and then overwrites it with the rank. The two uses of the key
  are two records here.
\<close>

record scored_section = section_rec +
  importance_score :: real

record ranked_section = section_rec +
  importance_rank :: nat

text \<open>The dictionary appended by \<^verbatim>\<open>_generate_subsections\<close>.\<close>

record subsection_rec =
  sub_document :: string
  sub_section_title :: string
  refined_text :: string
  sub_page_number :: nat

text \<open>
  \<open>'m fit_scorer\<close> stands for lines 178 to 188 of \<^verbatim>\<open>project_1b.py\<close>
  (\<^verbatim>\<open>fit_transform\<close> of the vectorizer and of the reduction, then
  \<^verbatim>\<open>cosine_similarity\<close>): it changes the state of the transforms.
  \<open>'m scorer\<close> stands for lines 229 to 235 (\<^verbatim>\<open>transform\<close> only): it reads the state.
\<close>

type_synonym 'm fit_scorer = "'m \<Rightarrow> string list \<Rightarrow> 'm \<times> (error + real list)"
type_synonym 'm scorer = "'m \<Rightarrow> string list \<Rightarrow> error + real list"

section \<open>project_1b: relevance ranker\<close>

definition with_score :: "section_rec \<Rightarrow> real \<Rightarrow> scored_section" where
  "with_score s x = section_rec.extend s (scored_section.fields x)"

definition with_rank :: "('a section_rec_scheme) \<Rightarrow> nat \<Rightarrow> ranked_section" where
  "with_rank s r = section_rec.extend (section_rec.truncate s) (ranked_section.fields r)"

definition section_text :: "section_rec \<Rightarrow> string" where
  "section_text s = section_title s @ '' '' @ content s"

text \<open>The \<^verbatim>\<open>except\<close> branch of \<^verbatim>\<open>_score_sections\<close>.\<close>

definition default_ranking :: "section_rec list \<Rightarrow> ranked_section list" where
  "default_ranking sections = map (\<lambda>(i, s). with_rank s (i + 1)) (enumerate 0 sections)"

text \<open>
  \<^verbatim>\<open>_score_sections\<close>. \<^verbatim>\<open>similarities[i]\<close> raises \<^verbatim>\<open>IndexError\<close> inside the
  \<^verbatim>\<open>try\<close> when the array is shorter than the list of sections.
\<close>

definition score_sections ::
  "'m fit_scorer \<Rightarrow> 'm \<Rightarrow> section_rec list \<Rightarrow> string \<Rightarrow> 'm \<times> ranked_section list" where
  "score_sections fit_score m sections query =
     (if sections = [] then (m, [])
      else
        let section_texts = map section_text sections;
            all_texts = section_texts @ [query];
            (m', outcome) = fit_score m all_texts
        in case outcome of
             Inl e \<Rightarrow> (m', default_ranking sections)
           | Inr similarities \<Rightarrow>
               if length similarities < length sections
               then (m', default_ranking sections)
               else
                 let scored_sections =
                       map (\<lambda>(i, s). with_score s (similarities ! i)) (enumerate 0 sections);
                     sorted_sections = py_sort_reverse importance_score scored_sections
                 in (m', map (\<lambda>(i, s). with_rank s (i + 1)) (enumerate 0 sorted_sections)))"

section \<open>project_1b: subsection refiner\<close>

text \<open>\<^verbatim>\<open>p[:300] + "..." if len(p) > 300 else p\<close>\<close>

definition truncate_text :: "string \<Rightarrow> string" where
  "truncate_text p = (if length p > 300 then take 300 p @ ''...'' else p)"

text \<open>Lines 221 to 224: the paragraphs worth scoring, or the first 500 characters.\<close>

definition paragraphs_of :: "string \<Rightarrow> string list" where
  "paragraphs_of c =
     (let paragraphs = map strip (filter (\<lambda>p. length (strip p) > 100) (split_blank c))
      in if paragraphs = [] then [take 500 c] else paragraphs)"

text \<open>\<^verbatim>\<open>np.argmax\<close>: the first index of a largest entry; an empty array raises.\<close>

definition argmax :: "real list \<Rightarrow> error + nat" where
  "argmax xs =
     (case xs of
        [] \<Rightarrow> Inl ValueError
      | y # ys \<Rightarrow> Inr (length (takeWhile (\<lambda>x. x < fold max ys y) xs)))"

definition make_subsection :: "('a section_rec_scheme) \<Rightarrow> string \<Rightarrow> subsection_rec" where
  "make_subsection s t =
     \<lparr>sub_document = document s, sub_section_title = section_title s,
      refined_text = t, sub_page_number = page_number s\<rparr>"

text \<open>The \<^verbatim>\<open>try\<close> block of the loop body: the refined text, or the exception.\<close>

definition best_paragraph :: "'m scorer \<Rightarrow> 'm \<Rightarrow> string list \<Rightarrow> string \<Rightarrow> error + string" where
  "best_paragraph score m paragraphs query =
     (case score m (paragraphs @ [query]) of
        Inl e \<Rightarrow> Inl e
      | Inr similarities \<Rightarrow>
          (case argmax similarities of
             Inl e \<Rightarrow> Inl e
           | Inr best_idx \<Rightarrow>
               if best_idx < length paragraphs
               then Inr (truncate_text (paragraphs ! best_idx))
               else Inl IndexError))"

text \<open>One iteration of the loop of \<^verbatim>\<open>_generate_subsections\<close>.\<close>

definition refine_section :: "'m scorer \<Rightarrow> 'm \<Rightarrow> string \<Rightarrow> ranked_section \<Rightarrow> subsection_rec" where
  "refine_section score m query s =
     (let paragraphs = paragraphs_of (content s)
      in case best_paragraph score m paragraphs query of
           Inr refined \<Rightarrow> make_subsection s refined
         | Inl e \<Rightarrow> make_subsection s (truncate_text (hd paragraphs)))"

definition generate_subsections ::
  "'m scorer \<Rightarrow> 'm \<Rightarrow> ranked_section list \<Rightarrow> string \<Rightarrow> subsection_rec list" where
  "generate_subsections score m top_sections query =
     map (refine_section score m query) (take 10 top_sections)"

section \<open>The decoded layout\<close>

text \<open>
  What \<^verbatim>\<open>page.get_text("dict")\<close>, \<^verbatim>\<open>doc.metadata\<close> and \<^verbatim>\<open>doc.get_toc()\<close> deliver.
  A block without the key \<^verbatim>\<open>"lines"\<close> (an image) is \<open>OtherBlock\<close>;
  \<open>metadata_title\<close> is \<open>None\<close> when the metadata has no key \<^verbatim>\<open>'title'\<close>.
\<close>

record span =
  span_text :: string
  span_size :: real
  span_flags :: int
  span_bbox :: "real \<times> real \<times> real \<times> real"

record layout_line =
  spans :: "span list"
  line_bbox :: "(real \<times> real \<times> real \<times> real) option"

datatype block = TextBlock "layout_line list" | OtherBlock

record pdf_page =
  blocks :: "block list"
  rect_height :: real

record pdf_document =
  pages :: "pdf_page list"
  metadata_title :: "string option"
  toc :: "(int \<times> string \<times> int) list"

text \<open>
  The loop over the spans of a line, the same in both files: the spans whose stripped
  text is not empty give the text of the line, its font sizes and its flags.
\<close>

definition kept_spans :: "layout_line \<Rightarrow> span list" where
  "kept_spans line = filter (\<lambda>sp. strip (span_text sp) \<noteq> []) (spans line)"

definition line_text :: "layout_line \<Rightarrow> string" where
  "line_text line = concat (map (\<lambda>sp. strip (span_text sp) @ '' '') (kept_spans line))"

definition line_font_sizes :: "layout_line \<Rightarrow> real list" where
  "line_font_sizes line = map span_size (kept_spans line)"

definition line_flags :: "layout_line \<Rightarrow> int list" where
  "line_flags line = map span_flags (kept_spans line)"

text \<open>\<^verbatim>\<open>any(flag & 2**4 for flag in line_flags)\<close>\<close>

definition any_bold :: "int list \<Rightarrow> bool" where
  "any_bold flags = list_ex (\<lambda>flag. flag AND 2 ^ 4 \<noteq> 0) flags"

section \<open>project_1b: section segmenter\<close>

text \<open>Lines 102 to 122: the text of a block and the font sizes of its lines.\<close>

definition block_text_of :: "layout_line list \<Rightarrow> string" where
  "block_text_of lines =
     strip (concat (map (\<lambda>line. line_text line @ [CHR 0x0A])
                        (filter (\<lambda>line. strip (line_text line) \<noteq> []) lines)))"

definition block_font_sizes :: "layout_line list \<Rightarrow> real list" where
  "block_font_sizes lines =
     concat (map line_font_sizes (filter (\<lambda>line. strip (line_text line) \<noteq> []) lines))"

text \<open>
  After the loop over the lines, the variable \<^verbatim>\<open>line_flags\<close> holds the flags of the
  last line only. (With no line at all the block text is empty and the variable is
  not read.)
\<close>

definition flags_after_loop :: "layout_line list \<Rightarrow> int list" where
  "flags_after_loop lines = (if lines = [] then [] else line_flags (last lines))"

text \<open>
  \<^verbatim>\<open>re.match(r'^(\d+\.?\s+|Chapter|Section|Introduction|Conclusion|Abstract|References)',
  block_text, re.IGNORECASE)\<close>
\<close>

definition has_heading_pattern :: "string \<Rightarrow> bool" where
  "has_heading_pattern block_text =
     (Option.bind (many1 is_digit block_text) (\<lambda>r. many1 is_space (opt_dot r)) \<noteq> None
      \<or> list_ex (\<lambda>w. lit_ignorecase w block_text \<noteq> None)
           [''Chapter'', ''Section'', ''Introduction'', ''Conclusion'', ''Abstract'',
            ''References''])"

text \<open>\<^verbatim>\<open>np.mean(font_sizes) if font_sizes else 12\<close>\<close>

definition mean :: "real list \<Rightarrow> real" where
  "mean xs = sum_list xs / real (length xs)"

text \<open>Lines 126 to 131, for a block whose text is not empty.\<close>

definition is_heading_block :: "layout_line list \<Rightarrow> bool" where
  "is_heading_block lines =
     (let block_text = block_text_of lines;
          font_sizes = block_font_sizes lines;
          avg_font_size = (if font_sizes \<noteq> [] then mean font_sizes else 12);
          is_bold = any_bold (flags_after_loop lines);
          is_short = length block_text < 100
      in (is_bold \<and> is_short) \<or> has_heading_pattern block_text \<or> avg_font_size > 14)"

record accumulator =
  cur_title :: string
  cur_content :: string
  cur_page :: nat

text \<open>The dictionary appended at lines 136 to 141 and again at lines 158 to 163.\<close>

definition emit_section :: "string \<Rightarrow> accumulator \<Rightarrow> section_rec" where
  "emit_section doc_name cur =
     \<lparr>document = doc_name,
      page_number = cur_page cur,
      section_title = (if cur_title cur \<noteq> [] then cur_title cur else ''Untitled Section''),
      content = strip (cur_content cur)\<rparr>"

text \<open>The body of the loop over the blocks (lines 101 to 154).\<close>

definition process_block ::
  "string \<Rightarrow> section_rec list \<times> accumulator \<Rightarrow> nat \<times> block \<Rightarrow> section_rec list \<times> accumulator" where
  "process_block doc_name st pb =
     (case (st, pb) of
        ((sections, cur), (page_num, OtherBlock)) \<Rightarrow> (sections, cur)
      | ((sections, cur), (page_num, TextBlock lines)) \<Rightarrow>
          let block_text = block_text_of lines
          in if block_text = [] then (sections, cur)
             else if is_heading_block lines \<and> strip (cur_content cur) \<noteq> []
             then ((if length (strip (cur_content cur)) > 50
                    then sections @ [emit_section doc_name cur] else sections),
                   \<lparr>cur_title = take 100 block_text, cur_content = [], cur_page = page_num + 1\<rparr>)
             else if is_heading_block lines \<and> cur_title cur = []
             then (sections, cur\<lparr>cur_title := take 100 block_text, cur_page := page_num + 1\<rparr>)
             else (sections, cur\<lparr>cur_content := cur_content cur @ block_text @ [CHR 0x0A, CHR 0x0A]\<rparr>))"

text \<open>The blocks in the order of the two nested loops, each with its page index.\<close>

definition numbered_blocks :: "pdf_document \<Rightarrow> (nat \<times> block) list" where
  "numbered_blocks doc =
     concat (map (\<lambda>(page_num, page). map (\<lambda>b. (page_num, b)) (blocks page))
                 (enumerate 0 (pages doc)))"

definition initial_accumulator :: accumulator where
  "initial_accumulator = \<lparr>cur_title = [], cur_content = [], cur_page = 1\<rparr>"

definition run_blocks :: "string \<Rightarrow> (nat \<times> block) list \<Rightarrow> section_rec list \<times> accumulator" where
  "run_blocks doc_name bs = foldl (process_block doc_name) ([], initial_accumulator) bs"

text \<open>\<^verbatim>\<open>_extract_sections_from_document\<close>\<close>

definition extract_sections_from_document :: "pdf_document \<Rightarrow> string \<Rightarrow> section_rec list" where
  "extract_sections_from_document doc doc_name =
     (case run_blocks doc_name (numbered_blocks doc) of
        (sections, cur) \<Rightarrow>
          if strip (cur_content cur) \<noteq> [] \<and> length (strip (cur_content cur)) > 50
          then sections @ [emit_section doc_name cur] else sections)"

section \<open>project_1a: title\<close>

text \<open>
  Lines 79 to 91: the spans of the first page that lie in its top 40 percent and whose
  stripped text has more than 5 characters, as (text, font size, top edge).
\<close>

definition span_candidate :: "pdf_page \<Rightarrow> span \<Rightarrow> (string \<times> real \<times> real) list" where
  "span_candidate page sp =
     (let text = strip (span_text sp);
          font_size = span_size sp;
          bbox = span_bbox sp
      in if fst (snd bbox) < rect_height page * (4 / 10) \<and> length text > 5
         then [(text, font_size, fst (snd bbox))] else [])"

definition title_candidates :: "pdf_page \<Rightarrow> (string \<times> real \<times> real) list" where
  "title_candidates page =
     concat (map (\<lambda>block. case block of
                    OtherBlock \<Rightarrow> []
                  | TextBlock lines \<Rightarrow>
                      concat (map (\<lambda>line. concat (map (span_candidate page) (spans line))) lines))
                 (blocks page))"

text \<open>The spans of a page in the order in which the three nested loops visit them.\<close>

definition page_spans :: "pdf_page \<Rightarrow> span list" where
  "page_spans page =
     concat (map (\<lambda>block. case block of
                    OtherBlock \<Rightarrow> []
                  | TextBlock lines \<Rightarrow> concat (map spans lines))
                 (blocks page))"

text \<open>Line 69: \<^verbatim>\<open>doc.metadata.get('title', '').strip()\<close>\<close>

definition stripped_metadata_title :: "pdf_document \<Rightarrow> string" where
  "stripped_metadata_title doc = strip (case metadata_title doc of None \<Rightarrow> [] | Some t \<Rightarrow> t)"

text \<open>\<^verbatim>\<open>_extract_title\<close>\<close>

definition extract_title :: "pdf_document \<Rightarrow> string" where
  "extract_title doc =
     (let metadata_title = stripped_metadata_title doc
      in if metadata_title \<noteq> [] \<and> length metadata_title > 3 then metadata_title
         else case pages doc of
                [] \<Rightarrow> ''Unknown Document''
              | page # rest \<Rightarrow>
                  let title_candidates = title_candidates page
                  in if title_candidates \<noteq> []
                     then
                       let sorted_candidates =
                             sort_key (\<lambda>(t, font_size, y). (- font_size, y)) title_candidates;
                           potential_title = fst (hd sorted_candidates);
                           potential_title =
                             strip_trailing_non_alnum (strip_leading_non_alnum potential_title)
                       in if length potential_title > 3 then potential_title
                          else ''Unknown Document''
                     else ''Unknown Document'')"

section \<open>project_1a: outline\<close>

record outline_entry =
  level :: string
  heading_text :: string
  page :: int

record text_block =
  tb_text :: string
  tb_font_size :: real
  tb_page :: nat
  tb_is_bold :: bool
  tb_bbox :: "real \<times> real \<times> real \<times> real"

text \<open>Lines 157 to 168: the entry of \<^verbatim>\<open>all_text_blocks\<close> that a line contributes, if any.\<close>

definition line_block :: "nat \<Rightarrow> layout_line \<Rightarrow> text_block list" where
  "line_block page_num line =
     (let text = strip (line_text line)
      in if text \<noteq> [] \<and> length text > 2
         then [\<lparr>tb_text = text,
                tb_font_size =
                  (if line_font_sizes line \<noteq> []
                   then sum_list (line_font_sizes line) / real (length (line_font_sizes line))
                   else 0),
                tb_page = page_num + 1,
                tb_is_bold = any_bold (line_flags line),
                tb_bbox = (case line_bbox line of Some b \<Rightarrow> b | None \<Rightarrow> (0, 0, 0, 0))\<rparr>]
         else [])"

definition all_text_blocks :: "pdf_document \<Rightarrow> text_block list" where
  "all_text_blocks doc =
     concat (map (\<lambda>(page_num, b). case b of
                    OtherBlock \<Rightarrow> []
                  | TextBlock lines \<Rightarrow> concat (map (line_block page_num) lines))
                 (numbered_blocks doc))"

text \<open>
  \<^verbatim>\<open>Counter(font_sizes).most_common(1)[0][0]\<close>: the counter keeps its keys in the order
  of their first occurrence, and the first key with the largest count wins.
\<close>

fun first_occurrences :: "'a list \<Rightarrow> 'a list" where
  "first_occurrences [] = []"
| "first_occurrences (x # xs) = x # first_occurrences (filter (\<lambda>y. y \<noteq> x) xs)"

definition counter :: "'a list \<Rightarrow> ('a \<times> nat) list" where
  "counter xs = map (\<lambda>x. (x, count_list xs x)) (first_occurrences xs)"

definition most_common1 :: "('a \<times> nat) list \<Rightarrow> 'a" where
  "most_common1 items =
     fst (fold (\<lambda>it best. if snd best < snd it then it else best) (tl items) (hd items))"

definition base_font_size :: "real list \<Rightarrow> real" where
  "base_font_size font_sizes = most_common1 (counter (py_sort_reverse (\<lambda>x. x) font_sizes))"

text \<open>\<^verbatim>\<open>self.heading_patterns\<close>, each tried with \<^verbatim>\<open>re.match\<close>.\<close>

definition heading_patterns :: "(string \<Rightarrow> string option) list" where
  "heading_patterns =
     [\<lambda>s. Option.bind (many1 is_digit s) (\<lambda>r. many1 is_space (opt_dot r)),
      \<lambda>s. Option.bind (Option.bind (Option.bind (many1 is_digit s) (lit ''.'')) (many1 is_digit))
             (\<lambda>r. many1 is_space (opt_dot r)),
      \<lambda>s. Option.bind (Option.bind (Option.bind (Option.bind (Option.bind (many1 is_digit s)
             (lit ''.'')) (many1 is_digit)) (lit ''.'')) (many1 is_digit))
             (\<lambda>r. many1 is_space (opt_dot r)),
      \<lambda>s. Option.bind (many1 (\<lambda>c. c \<in> set ''IVX'') s) (\<lambda>r. many1 is_space (opt_dot r)),
      \<lambda>s. Option.bind (one is_upper s) (\<lambda>r. many1 is_space (opt_dot r)),
      \<lambda>s. Option.bind (one is_lower s) (\<lambda>r. many1 is_space (opt_dot r)),
      \<lambda>s. Option.bind (Option.bind (lit ''Chapter'' s) (many1 is_space)) (many1 is_digit),
      \<lambda>s. Option.bind (Option.bind (lit ''Section'' s) (many1 is_space)) (many1 is_digit)]"

definition is_pattern_match :: "string \<Rightarrow> bool" where
  "is_pattern_match text = list_ex (\<lambda>pattern. pattern text \<noteq> None) heading_patterns"

text \<open>Lines 198 to 205: \<open>None\<close> is Python's \<^verbatim>\<open>None\<close>.\<close>

definition heading_level_of :: "real \<Rightarrow> text_block \<Rightarrow> string option" where
  "heading_level_of base block =
     (let h1_threshold = base * (14 / 10);
          h2_threshold = base * (12 / 10);
          h3_threshold = base * (11 / 10);
          font_size = tb_font_size block;
          is_bold = tb_is_bold block;
          is_pattern_match = is_pattern_match (tb_text block)
      in if font_size \<ge> h1_threshold \<or> (is_bold \<and> font_size \<ge> base * (11 / 10))
         then Some ''H1''
         else if font_size \<ge> h2_threshold \<or> (is_bold \<and> is_pattern_match)
         then Some ''H2''
         else if font_size \<ge> h3_threshold \<or> is_pattern_match
         then Some ''H3''
         else None)"

text \<open>The body of the loop at lines 184 to 217: the heading a block contributes, if any.\<close>

definition heading_of_block :: "real \<Rightarrow> text_block \<Rightarrow> outline_entry list" where
  "heading_of_block base block =
     (if length (tb_text block) > 200 then []
      else case heading_level_of base block of
             None \<Rightarrow> []
           | Some heading_level \<Rightarrow>
               let clean_text = strip (strip_trailing_dots (strip_leading_non_alnum (tb_text block)))
               in if length clean_text > 2 \<and> length clean_text < 150
                  then [\<lparr>level = heading_level, heading_text = clean_text,
                         page = int (tb_page block)\<rparr>]
                  else [])"

text \<open>Lines 220 to 226: \<open>seen\<close> is the set of keys met so far.\<close>

definition heading_key :: "outline_entry \<Rightarrow> string \<times> int" where
  "heading_key heading = (lower (heading_text heading), page heading)"

definition dedupe_step ::
  "outline_entry list \<times> (string \<times> int) list \<Rightarrow> outline_entry \<Rightarrow>
   outline_entry list \<times> (string \<times> int) list" where
  "dedupe_step st heading =
     (case st of (unique_headings, seen) \<Rightarrow>
        if heading_key heading \<notin> set seen
        then (unique_headings @ [heading], heading_key heading # seen)
        else (unique_headings, seen))"

definition unique_headings :: "outline_entry list \<Rightarrow> outline_entry list" where
  "unique_headings headings = fst (foldl dedupe_step ([], []) headings)"

text \<open>\<^verbatim>\<open>_extract_headings_by_font_analysis\<close>\<close>

definition extract_headings_by_font_analysis :: "pdf_document \<Rightarrow> outline_entry list" where
  "extract_headings_by_font_analysis doc =
     (let all_text_blocks = all_text_blocks doc;
          font_sizes = map tb_font_size all_text_blocks
      in if font_sizes = [] then []
         else
           let base_font_size = base_font_size font_sizes;
               headings = concat (map (heading_of_block base_font_size) all_text_blocks)
           in sort_key page (unique_headings headings))"

text \<open>Lines 117 to 124: one entry of the table of contents.\<close>

definition toc_entry :: "int \<times> string \<times> int \<Rightarrow> outline_entry" where
  "toc_entry item =
     (case item of (lvl, title, pg) \<Rightarrow>
        \<lparr>level = ''H'' @ str_int (min lvl 3), heading_text = strip title, page = pg\<rparr>)"

text \<open>\<^verbatim>\<open>_extract_outline\<close>\<close>

definition extract_outline :: "pdf_document \<Rightarrow> outline_entry list" where
  "extract_outline doc =
     (let outline = (if toc doc \<noteq> [] then map toc_entry (take 50 (toc doc)) else []);
          outline = (if length outline < 3 then extract_headings_by_font_analysis doc
                     else outline)
      in take 50 outline)"

text \<open>
  The font sizes of the lines that the font analysis classifies at a level: the entries
  of \<^verbatim>\<open>all_text_blocks\<close> that pass the length test of line 191 and get that
  \<^verbatim>\<open>heading_level\<close> at lines 198 to 205.
\<close>

definition classified_sizes :: "pdf_document \<Rightarrow> string \<Rightarrow> real list" where
  "classified_sizes doc lvl =
     map tb_font_size
       (filter (\<lambda>block. \<not> length (tb_text block) > 200 \<and>
                  heading_level_of (base_font_size (map tb_font_size (all_text_blocks doc))) block
                    = Some lvl)
          (all_text_blocks doc))"

section \<open>Concrete inputs\<close>

definition demo_sections :: "section_rec list" where
  "demo_sections =
     [\<lparr>document = ''a.pdf'', page_number = 1, section_title = ''Intro'', content = ''alpha''\<rparr>,
      \<lparr>document = ''a.pdf'', page_number = 2, section_title = ''Method'', content = ''beta''\<rparr>]"

definition demo_ranked :: ranked_section where
  "demo_ranked =
     \<lparr>document = ''a.pdf'', page_number = 1, section_title = ''Intro'', content = ''alpha'',
      importance_rank = 1\<rparr>"

definition demo_span :: span where
  "demo_span =
     \<lparr>span_text = ''the quick brown fox jumps over the lazy dog near the river bank'',
      span_size = 12, span_flags = 0, span_bbox = (72, 100, 400, 112)\<rparr>"

definition demo_doc :: pdf_document where
  "demo_doc =
     \<lparr>pages = [\<lparr>blocks = [TextBlock [\<lparr>spans = [demo_span], line_bbox = None\<rparr>]],
                rect_height = 800\<rparr>],
      metadata_title = None, toc = []\<rparr>"

definition demo_emitted :: section_rec where
  "demo_emitted =
     \<lparr>document = ''a.pdf'', page_number = 1, section_title = ''Untitled Section'',
      content = ''the quick brown fox jumps over the lazy dog near the river bank''\<rparr>"

definition bold_first_line_block :: "layout_line list" where
  "bold_first_line_block =
     [\<lparr>spans = [\<lparr>span_text = ''Key findings'', span_size = 12, span_flags = 16,
                   span_bbox = (72, 100, 200, 112)\<rparr>],
       line_bbox = None\<rparr>,
      \<lparr>spans = [\<lparr>span_text = ''of the study'', span_size = 12, span_flags = 0,
                   span_bbox = (72, 114, 200, 126)\<rparr>],
       line_bbox = None\<rparr>]"

definition titled_doc :: pdf_document where
  "titled_doc = \<lparr>pages = [], metadata_title = Some ''My Paper'', toc = []\<rparr>"

definition padded_title_doc :: pdf_document where
  "padded_title_doc = \<lparr>pages = [], metadata_title = Some ''  ab  '', toc = []\<rparr>"

definition cover_page :: pdf_page where
  "cover_page =
     \<lparr>blocks =
        [TextBlock
           [\<lparr>spans = [\<lparr>span_text = ''a smaller subtitle'', span_size = 12, span_flags = 0,
                         span_bbox = (72, 40, 300, 52)\<rparr>],
             line_bbox = None\<rparr>,
            \<lparr>spans = [\<lparr>span_text = ''** Annual Report 2024 **'', span_size = 24, span_flags = 0,
                         span_bbox = (72, 90, 400, 114)\<rparr>],
             line_bbox = None\<rparr>]],
      rect_height = 800\<rparr>"

definition cover_doc :: pdf_document where
  "cover_doc = \<lparr>pages = [cover_page], metadata_title = None, toc = []\<rparr>"

section \<open>The relevance ranker orders by similarity\<close>

lemma insort_key_map: "insort_key k (f x) (map f xs) = map f (insort_key (\<lambda>a. k (f a)) x xs)"
  by (induction xs) simp_all

lemma sort_key_map: "sort_key k (map f xs) = map f (sort_key (\<lambda>a. k (f a)) xs)"
  by (induction xs) (simp_all add: insort_key_map)

lemma py_sort_reverse_map:
  "py_sort_reverse k (map f xs) = map f (py_sort_reverse (\<lambda>a. k (f a)) xs)"
  by (simp add: py_sort_reverse_def rev_map sort_key_map)

lemma mset_py_sort_reverse: "mset (py_sort_reverse k xs) = mset xs"
  by (simp add: py_sort_reverse_def)

lemma length_py_sort_reverse: "length (py_sort_reverse k xs) = length xs"
  by (simp add: py_sort_reverse_def)

lemma py_sort_reverse_descending:
  assumes "i < j" and "j < length xs"
  shows "k (py_sort_reverse k xs ! j) \<le> k (py_sort_reverse k xs ! i)"
proof -
  let ?ys = "sort_key k (rev xs)"
  have len: "length ?ys = length xs" by simp
  have srt: "sorted (map k ?ys)" by simp
  have "py_sort_reverse k xs ! j = ?ys ! (length xs - Suc j)"
    using assms len by (simp add: py_sort_reverse_def rev_nth)
  moreover have "py_sort_reverse k xs ! i = ?ys ! (length xs - Suc i)"
    using assms len by (simp add: py_sort_reverse_def rev_nth)
  moreover have "map k ?ys ! (length xs - Suc j) \<le> map k ?ys ! (length xs - Suc i)"
    using srt assms len by (intro sorted_nth_mono) simp_all
  ultimately show ?thesis using assms len by simp
qed

lemma py_sort_reverse_stable:
  "filter (\<lambda>y. k y = c) (py_sort_reverse k xs) = filter (\<lambda>y. k y = c) xs"
  by (simp add: py_sort_reverse_def rev_filter [symmetric] sort_key_stable)

lemma filter_two_positions:
  assumes "i < j" and "j < length ys" and "P (ys ! i)" and "P (ys ! j)"
  shows "\<exists>as bs cs. filter P ys = as @ ys ! i # bs @ ys ! j # cs"
proof -
  have "ys = take i ys @ ys ! i # drop (Suc i) ys"
    using assms by (simp add: id_take_nth_drop)
  moreover have "drop (Suc i) ys = take (j - Suc i) (drop (Suc i) ys) @ ys ! j # drop (Suc j) ys"
    using assms id_take_nth_drop [of "j - Suc i" "drop (Suc i) ys"] by simp
  ultimately have "ys = take i ys @ ys ! i # take (j - Suc i) (drop (Suc i) ys) @ ys ! j # drop (Suc j) ys"
    by simp
  then have "filter P ys = filter P (take i ys @ ys ! i # take (j - Suc i) (drop (Suc i) ys) @ ys ! j # drop (Suc j) ys)"
    by simp
  then show ?thesis using assms by auto
qed

lemma map_enumerate_upt:
  "map f (enumerate 0 xs) = map (\<lambda>i. f (i, xs ! i)) [0..<length xs]"
  by (rule nth_equalityI) (simp_all add: nth_enumerate_eq)

lemma with_rank_with_score: "with_rank (with_score s x) r = with_rank s r"
  by (simp add: with_rank_def with_score_def section_rec.extend_def section_rec.truncate_def)

lemma importance_score_with_score: "importance_score (with_score s x) = x"
  by (simp add: with_score_def section_rec.extend_def scored_section.fields_def)

lemma importance_rank_with_rank: "importance_rank (with_rank s r) = r"
  by (simp add: with_rank_def section_rec.extend_def ranked_section.fields_def)

lemma score_sections_order:
  assumes ne: "sections \<noteq> []"
    and fit: "fit_score m (map section_text sections @ [query]) = (m', Inr sims)"
    and len: "length sections \<le> length sims"
  shows "snd (score_sections fit_score m sections query) =
           map (\<lambda>(j, i). with_rank (sections ! i) (j + 1))
             (enumerate 0 (py_sort_reverse (\<lambda>i. sims ! i) [0..<length sections]))"
proof -
  let ?idx = "py_sort_reverse (\<lambda>i. sims ! i) [0..<length sections]"
  let ?g = "\<lambda>i. with_score (sections ! i) (sims ! i)"
  have scored: "map (\<lambda>(i, s). with_score s (sims ! i)) (enumerate 0 sections) = map ?g [0..<length sections]"
    by (simp add: map_enumerate_upt)
  have sorted: "py_sort_reverse importance_score (map ?g [0..<length sections]) = map ?g ?idx"
    by (simp add: py_sort_reverse_map importance_score_with_score)
  have ranked: "map (\<lambda>(i, s). with_rank s (i + 1)) (enumerate 0 (map ?g ?idx)) =
        map (\<lambda>(j, i). with_rank (sections ! i) (j + 1)) (enumerate 0 ?idx)"
    by (rule nth_equalityI) (simp_all add: nth_enumerate_eq with_rank_with_score)
  have "snd (score_sections fit_score m sections query) =
        map (\<lambda>(i, s). with_rank s (i + 1)) (enumerate 0
          (py_sort_reverse importance_score (map (\<lambda>(i, s). with_score s (sims ! i)) (enumerate 0 sections))))"
    using ne fit len by (simp add: score_sections_def Let_def)
  then show ?thesis by (simp only: scored sorted ranked)
qed

text \<open>
  Claim C1. When the scoring step succeeds on a non-empty list of \<open>N\<close> sections, the
  result lists the sections in an order \<open>idx\<close> that is a permutation of \<open>0..<N\<close>, the
  \<open>j\<close>-th result carrying rank \<open>j + 1\<close>, so the ranks are exactly \<open>1..N\<close>; the
  similarities along \<open>idx\<close> never increase; and of two sections with the same
  similarity the one extracted first comes first.
\<close>

theorem score_sections_ranked:
  assumes ne: "sections \<noteq> []"
    and fit: "fit_score m (map section_text sections @ [query]) = (m', Inr sims)"
    and len: "length sections \<le> length sims"
  shows "\<exists>idx. mset idx = mset [0..<length sections] \<and>
           snd (score_sections fit_score m sections query) =
             map (\<lambda>(j, i). with_rank (sections ! i) (j + 1)) (enumerate 0 idx) \<and>
           map importance_rank (snd (score_sections fit_score m sections query)) =
             [1..<length sections + 1] \<and>
           (\<forall>i j. i < j \<and> j < length sections \<longrightarrow> sims ! (idx ! j) \<le> sims ! (idx ! i)) \<and>
           (\<forall>i j. i < j \<and> j < length sections \<and> sims ! (idx ! i) = sims ! (idx ! j)
                \<longrightarrow> idx ! i < idx ! j)"
proof -
  let ?n = "length sections"
  let ?k = "\<lambda>i. sims ! i"
  let ?idx = "py_sort_reverse ?k [0..<?n]"
  have lidx: "length ?idx = ?n" by (simp add: length_py_sort_reverse)
  have res: "snd (score_sections fit_score m sections query) =
      map (\<lambda>(j, i). with_rank (sections ! i) (j + 1)) (enumerate 0 ?idx)"
    using ne fit len by (rule score_sections_order)
  have "map importance_rank (map (\<lambda>(j, i). with_rank (sections ! i) (j + 1)) (enumerate 0 ?idx))
      = map Suc [0..<?n]"
    by (rule nth_equalityI) (simp_all add: lidx nth_enumerate_eq importance_rank_with_rank)
  also have "\<dots> = [1..<?n + 1]"
    by (simp add: map_Suc_upt del: upt_Suc)
  finally have ranks: "map importance_rank (map (\<lambda>(j, i). with_rank (sections ! i) (j + 1)) (enumerate 0 ?idx))
      = [1..<?n + 1]" .
  have desc: "\<forall>i j. i < j \<and> j < ?n \<longrightarrow> sims ! (?idx ! j) \<le> sims ! (?idx ! i)"
    using py_sort_reverse_descending [of _ _ "[0..<?n]" ?k] by simp
  have stab: "\<forall>i j. i < j \<and> j < ?n \<and> sims ! (?idx ! i) = sims ! (?idx ! j) \<longrightarrow> ?idx ! i < ?idx ! j"
  proof (intro allI impI)
    fix i j
    assume h: "i < j \<and> j < ?n \<and> sims ! (?idx ! i) = sims ! (?idx ! j)"
    let ?P = "\<lambda>y. sims ! y = sims ! (?idx ! j)"
    from h lidx have "\<exists>as bs cs. filter ?P ?idx = as @ ?idx ! i # bs @ ?idx ! j # cs"
      by (intro filter_two_positions) simp_all
    then obtain as bs cs where "filter ?P ?idx = as @ ?idx ! i # bs @ ?idx ! j # cs" by blast
    then have "filter ?P [0..<?n] = as @ ?idx ! i # bs @ ?idx ! j # cs"
      by (simp add: py_sort_reverse_stable)
    moreover have "sorted_wrt (<) (filter ?P [0..<?n])"
      by (rule sorted_wrt_filter) simp
    ultimately have "sorted_wrt (<) (as @ ?idx ! i # bs @ ?idx ! j # cs)" by simp
    then show "?idx ! i < ?idx ! j" by (simp add: sorted_wrt_append)
  qed
  show ?thesis
    apply (rule exI [of _ ?idx])
    using res ranks desc stab by (simp add: mset_py_sort_reverse del: mset_upt)
qed

theorem score_sections_ranked_witness:
  "demo_sections \<noteq> [] \<and>
   (\<exists>idx. mset idx = mset [0..<length demo_sections] \<and>
      snd (score_sections (\<lambda>m ts. (m, Inr [1 / 5, 9 / 10])) () demo_sections ''q'') =
        map (\<lambda>(j, i). with_rank (demo_sections ! i) (j + 1)) (enumerate 0 idx) \<and>
      map importance_rank (snd (score_sections (\<lambda>m ts. (m, Inr [1 / 5, 9 / 10])) () demo_sections ''q'')) =
        [1..<length demo_sections + 1] \<and>
      (\<forall>i j. i < j \<and> j < length demo_sections \<longrightarrow> [1 / 5, 9 / 10 :: real] ! (idx ! j) \<le> [1 / 5, 9 / 10] ! (idx ! i)) \<and>
      (\<forall>i j. i < j \<and> j < length demo_sections \<and> [1 / 5, 9 / 10 :: real] ! (idx ! i) = [1 / 5, 9 / 10] ! (idx ! j)
           \<longrightarrow> idx ! i < idx ! j))"
proof -
  have ne: "demo_sections \<noteq> []" by (simp add: demo_sections_def)
  have len: "length demo_sections \<le> length [1 / 5, 9 / 10 :: real]" by (simp add: demo_sections_def)
  show ?thesis
    using ne len
      score_sections_ranked [where sections = demo_sections and m = "()" and m' = "()"
        and fit_score = "\<lambda>m ts. (m, Inr [1 / 5, 9 / 10])" and query = "''q''"
        and sims = "[1 / 5, 9 / 10]"]
    by simp
qed

section \<open>The subsection refiner\<close>

lemma split_blank_nonempty: "split_blank c \<noteq> []"
  by (induction c rule: split_blank.induct) (simp_all add: Let_def)

lemma join_split_blank: "join_blank (split_blank c) = c"
proof (induction c rule: split_blank.induct)
  case 1
  then show ?case by (simp add: join_blank_def)
next
  case (2 c)
  then show ?case by (simp add: join_blank_def)
next
  case (3 c d cs)
  show ?case
  proof (cases "c = CHR 0x0A \<and> d = CHR 0x0A")
    case True
    with 3 show ?thesis
      by (cases "split_blank cs") (simp_all add: join_blank_def split_blank_nonempty)
  next
    case False
    with 3 show ?thesis
      by (cases "split_blank (d # cs)") (auto simp add: join_blank_def Let_def split_blank_nonempty)
  qed
qed

lemma paragraphs_of_nonempty: "paragraphs_of c \<noteq> []"
  by (simp add: paragraphs_of_def Let_def)

lemma find_filter_hd:
  "find P xs = (case filter P xs of [] \<Rightarrow> None | x # ys \<Rightarrow> Some x)"
  by (induction xs) simp_all

lemma hd_paragraphs_of:
  "hd (paragraphs_of c) =
     (case find (\<lambda>p. 100 < length (strip p)) (split_blank c) of
        Some p \<Rightarrow> strip p | None \<Rightarrow> take 500 c)"
  by (simp add: paragraphs_of_def Let_def find_filter_hd split: list.splits)

lemma paragraphs_of_cases:
  "p \<in> set (paragraphs_of c) \<Longrightarrow>
     p = take 500 c \<or> (\<exists>q \<in> set (split_blank c). p = strip q \<and> 100 < length (strip q))"
  by (auto simp add: paragraphs_of_def Let_def split: if_splits)

lemma takeWhile_shorter:
  "\<exists>x \<in> set xs. \<not> P x \<Longrightarrow> length (takeWhile P xs) < length xs"
  by (induction xs) auto

lemma argmax_Inr:
  assumes "argmax xs = Inr b"
  shows "b < length xs \<and> (\<forall>j < length xs. xs ! j \<le> xs ! b) \<and> (\<forall>j < b. xs ! j < xs ! b)"
proof -
  from assms obtain y ys where xs: "xs = y # ys" by (cases xs) (simp_all add: argmax_def)
  define M where "M = fold max ys y"
  let ?P = "\<lambda>x. x < M"
  have M: "M = Max (set xs)" unfolding xs M_def by (rule Max.set_eq_fold [symmetric])
  have "argmax (y # ys) = Inr (length (takeWhile ?P (y # ys)))"
    by (simp only: argmax_def list.case M_def)
  with assms have b: "b = length (takeWhile ?P xs)"
    by (simp only: xs sum.inject)
  have "M \<in> set xs" unfolding M using xs by (intro Max_in) simp_all
  then have ex: "\<exists>x \<in> set xs. \<not> ?P x" by auto
  have lt: "b < length xs"
    unfolding b using ex by (rule takeWhile_shorter)
  have "\<not> ?P (xs ! b)" unfolding b using lt [unfolded b] by (rule nth_length_takeWhile)
  moreover have "xs ! b \<le> M" unfolding M using lt by simp
  ultimately have top: "xs ! b = M" by simp
  have le: "\<forall>j < length xs. xs ! j \<le> xs ! b" unfolding top M by simp
  have below: "\<forall>j < b. xs ! j < xs ! b"
  proof (intro allI impI)
    fix j assume j: "j < b"
    then have "takeWhile ?P xs ! j = xs ! j" unfolding b by (rule takeWhile_nth)
    moreover have "takeWhile ?P xs ! j \<in> set (takeWhile ?P xs)" using j b by simp
    ultimately have "?P (xs ! j)" using set_takeWhileD by metis
    then show "xs ! j < xs ! b" using top by simp
  qed
  from lt le below show ?thesis by blast
qed

lemma truncate_text_length: "length (truncate_text p) \<le> 303"
  by (simp add: truncate_text_def)

lemma best_paragraph_Inr:
  assumes "best_paragraph score m ps query = Inr t"
  shows "\<exists>sims b. score m (ps @ [query]) = Inr sims \<and> argmax sims = Inr b \<and> b < length ps \<and>
           t = truncate_text (ps ! b)"
  using assms by (auto simp add: best_paragraph_def split: sum.splits if_splits)

lemma refined_text_make: "refined_text (make_subsection s t) = t"
  by (simp add: make_subsection_def)

lemma refine_section_from_paragraph:
  "\<exists>p \<in> set (paragraphs_of (content s)). refined_text (refine_section score m query s) = truncate_text p"
proof (cases "best_paragraph score m (paragraphs_of (content s)) query")
  case (Inl e)
  then have "refined_text (refine_section score m query s) = truncate_text (hd (paragraphs_of (content s)))"
    by (simp add: refine_section_def Let_def refined_text_make)
  moreover have "hd (paragraphs_of (content s)) \<in> set (paragraphs_of (content s))"
    by (simp add: paragraphs_of_nonempty)
  ultimately show ?thesis by blast
next
  case (Inr t)
  from best_paragraph_Inr [OF Inr] obtain b where
    b: "b < length (paragraphs_of (content s))" and t: "t = truncate_text (paragraphs_of (content s) ! b)"
    by blast
  have "refined_text (refine_section score m query s) = t"
    using Inr by (simp add: refine_section_def Let_def refined_text_make)
  with b t show ?thesis using nth_mem by blast
qed

lemma refine_section_frame:
  "sub_document (refine_section score m query s) = document s \<and>
   sub_section_title (refine_section score m query s) = section_title s \<and>
   sub_page_number (refine_section score m query s) = page_number s"
  by (simp add: refine_section_def Let_def make_subsection_def split: sum.splits)

lemma length_generate_subsections:
  "length (generate_subsections score m top_sections query) = min 10 (length top_sections)"
  by (simp add: generate_subsections_def min.commute)

lemma nth_generate_subsections:
  "i < min 10 (length top_sections) \<Longrightarrow>
     generate_subsections score m top_sections query ! i = refine_section score m query (top_sections ! i)"
  by (simp add: generate_subsections_def)

lemma default_ranking_nth:
  "length (default_ranking sections) = length sections \<and>
   (\<forall>i < length sections. default_ranking sections ! i = with_rank (sections ! i) (i + 1))"
  by (simp add: default_ranking_def nth_enumerate_eq)

lemma default_ranking_ranks:
  "map importance_rank (default_ranking sections) = [1..<length sections + 1]"
proof -
  have "map importance_rank (default_ranking sections) = map Suc [0..<length sections]"
    by (rule nth_equalityI) (simp_all add: default_ranking_def nth_enumerate_eq importance_rank_with_rank)
  then show ?thesis by (simp add: map_Suc_upt del: upt_Suc)
qed

lemma score_sections_failure:
  "sections \<noteq> [] \<Longrightarrow> fit_score m (map section_text sections @ [query]) = (m', Inl e) \<Longrightarrow>
     snd (score_sections fit_score m sections query) = default_ranking sections"
  by (simp add: score_sections_def Let_def)

lemma score_sections_single:
  "snd (score_sections fit_score m [s] query) = [with_rank s 1]"
proof (cases "fit_score m (map section_text [s] @ [query])")
  case (Pair m' outcome)
  show ?thesis
  proof (cases outcome)
    case (Inl e)
    with Pair show ?thesis
      by (simp add: score_sections_def Let_def default_ranking_def enumerate_simps)
  next
    case (Inr sims)
    with Pair show ?thesis
      by (simp add: score_sections_def Let_def default_ranking_def py_sort_reverse_def
          with_rank_with_score)
  qed
qed

lemma refine_section_failure:
  "score m (paragraphs_of (content r) @ [query]) = Inl e \<Longrightarrow>
     refine_section score m query r = make_subsection r (truncate_text (hd (paragraphs_of (content r))))"
  by (simp add: refine_section_def Let_def best_paragraph_def)

text \<open>
  Claim C2. When the scoring step raises on a non-empty list of \<open>N\<close> sections, the
  ranker returns the \<open>N\<close> sections in their extraction order with the ranks \<open>1..N\<close>;
  a list of one section always comes back as that section with rank 1, whatever the
  scoring step does; and when the scoring of the paragraphs raises in the refiner, the
  subsection is built from the first paragraph of the list: the first paragraph of more
  than 100 characters, or the first 500 characters of the content when there is none.
\<close>

theorem scoring_failure_falls_back:
  "(sections \<noteq> [] \<and> fit_score m (map section_text sections @ [query]) = (m', Inl e) \<longrightarrow>
      length (snd (score_sections fit_score m sections query)) = length sections \<and>
      map importance_rank (snd (score_sections fit_score m sections query)) =
        [1..<length sections + 1] \<and>
      (\<forall>i < length sections.
         snd (score_sections fit_score m sections query) ! i = with_rank (sections ! i) (i + 1)))
   \<and> snd (score_sections fit_score m [s] query) = [with_rank s 1]
   \<and> (score n (paragraphs_of (content r) @ [query']) = Inl e' \<longrightarrow>
        refine_section score n query' r =
          make_subsection r
            (truncate_text
               (case find (\<lambda>p. 100 < length (strip p)) (split_blank (content r)) of
                  Some p \<Rightarrow> strip p
                | None \<Rightarrow> take 500 (content r))))"
proof (intro conjI impI)
  assume h: "sections \<noteq> [] \<and> fit_score m (map section_text sections @ [query]) = (m', Inl e)"
  then have res: "snd (score_sections fit_score m sections query) = default_ranking sections"
    by (simp add: score_sections_failure)
  show "length (snd (score_sections fit_score m sections query)) = length sections"
    unfolding res by (simp add: default_ranking_nth)
  show "map importance_rank (snd (score_sections fit_score m sections query)) =
        [1..<length sections + 1]"
    unfolding res by (rule default_ranking_ranks)
  show "\<forall>i < length sections.
         snd (score_sections fit_score m sections query) ! i = with_rank (sections ! i) (i + 1)"
    unfolding res by (simp add: default_ranking_nth)
next
  show "snd (score_sections fit_score m [s] query) = [with_rank s 1]"
    by (rule score_sections_single)
next
  assume "score n (paragraphs_of (content r) @ [query']) = Inl e'"
  then show "refine_section score n query' r =
          make_subsection r
            (truncate_text
               (case find (\<lambda>p. 100 < length (strip p)) (split_blank (content r)) of
                  Some p \<Rightarrow> strip p
                | None \<Rightarrow> take 500 (content r)))"
    by (simp add: refine_section_failure hd_paragraphs_of)
qed

lemma demo_paragraphs: "paragraphs_of ''alpha'' = [''alpha'']"
  by (simp add: paragraphs_of_def Let_def strip_def is_space_def)

theorem scoring_failure_falls_back_witness:
  "demo_sections \<noteq> [] \<and>
   length (snd (score_sections (\<lambda>m ts. (m, Inl LibraryError)) () demo_sections ''q'')) = 2 \<and>
   map importance_rank (snd (score_sections (\<lambda>m ts. (m, Inl LibraryError)) () demo_sections ''q''))
     = [1..<3] \<and>
   snd (score_sections (\<lambda>m ts. (m, Inl LibraryError)) () demo_sections ''q'') ! 0 =
     with_rank (demo_sections ! 0) 1 \<and>
   snd (score_sections (\<lambda>m ts. (m, Inl LibraryError)) () demo_sections ''q'') ! 1 =
     with_rank (demo_sections ! 1) 2 \<and>
   refined_text (refine_section (\<lambda>m ts. Inl LibraryError) () ''q'' demo_ranked) = ''alpha''"
proof -
  have ne: "demo_sections \<noteq> []" by (simp add: demo_sections_def)
  have len: "length demo_sections = 2" by (simp add: demo_sections_def)
  have c: "content demo_ranked = ''alpha''" by (simp add: demo_ranked_def)
  note t = scoring_failure_falls_back [where sections = demo_sections and m = "()" and m' = "()"
      and fit_score = "\<lambda>m ts. (m, Inl LibraryError)" and query = "''q''" and e = LibraryError
      and score = "\<lambda>m ts. Inl LibraryError" and n = "()" and r = demo_ranked
      and query' = "''q''" and e' = LibraryError]
  from t ne have a: "length (snd (score_sections (\<lambda>m ts. (m, Inl LibraryError)) () demo_sections ''q'')) = 2"
    by (simp add: len)
  from t ne have b: "map importance_rank (snd (score_sections (\<lambda>m ts. (m, Inl LibraryError)) () demo_sections ''q''))
     = [1..<3]"
    by (simp add: len)
  from t ne have d: "\<forall>i < 2. snd (score_sections (\<lambda>m ts. (m, Inl LibraryError)) () demo_sections ''q'') ! i =
     with_rank (demo_sections ! i) (i + 1)"
    by (simp add: len)
  from t have g: "refined_text (refine_section (\<lambda>m ts. Inl LibraryError) () ''q'' demo_ranked) = ''alpha''"
    by (simp add: c refined_text_make truncate_text_def strip_def is_space_def)
  from d have d0: "snd (score_sections (\<lambda>m ts. (m, Inl LibraryError)) () demo_sections ''q'') ! 0 =
     with_rank (demo_sections ! 0) 1" by simp
  from d have d1: "snd (score_sections (\<lambda>m ts. (m, Inl LibraryError)) () demo_sections ''q'') ! 1 =
     with_rank (demo_sections ! 1) 2" by (simp add: numeral_2_eq_2)
  from ne a b d0 d1 g show ?thesis by blast
qed

lemma split_blank_no_newline:
  "\<forall>ch \<in> set c. ch \<noteq> CHR 0x0A \<Longrightarrow> split_blank c = [c]"
  by (induction c rule: split_blank.induct) (simp_all add: Let_def)

lemma strip_no_space: "\<forall>ch \<in> set s. \<not> is_space ch \<Longrightarrow> strip s = s"
proof -
  assume h: "\<forall>ch \<in> set s. \<not> is_space ch"
  then have "dropWhile is_space s = s" by (cases s) simp_all
  moreover from h have "dropWhile is_space (rev s) = rev s" by (cases "rev s") (simp, metis dropWhile.simps(2) list.set_intros(1) set_rev)
  ultimately show ?thesis by (simp add: strip_def)
qed

lemma paragraphs_of_some:
  "\<exists>p \<in> set (split_blank c). 100 < length (strip p) \<Longrightarrow>
     paragraphs_of c = map strip (filter (\<lambda>p. 100 < length (strip p)) (split_blank c))"
  by (auto simp add: paragraphs_of_def Let_def filter_empty_conv)

lemma paragraphs_of_none:
  "\<forall>p \<in> set (split_blank c). length (strip p) \<le> 100 \<Longrightarrow> paragraphs_of c = [take 500 c]"
  by (auto simp add: paragraphs_of_def Let_def filter_empty_conv)

lemma refine_section_best:
  assumes sc: "score m (paragraphs_of (content s) @ [query]) = Inr sims"
    and len: "length sims = length (paragraphs_of (content s))"
  shows "\<exists>b < length sims. (\<forall>j < length sims. sims ! j \<le> sims ! b) \<and> (\<forall>j < b. sims ! j < sims ! b) \<and>
           refined_text (refine_section score m query s) =
             truncate_text (paragraphs_of (content s) ! b)"
proof -
  have "sims \<noteq> []" using len paragraphs_of_nonempty [of "content s"] by auto
  then obtain b where am: "argmax sims = Inr b"
    by (cases sims) (simp_all add: argmax_def)
  from argmax_Inr [OF am] have b: "b < length sims"
    and le: "\<forall>j < length sims. sims ! j \<le> sims ! b" and lt: "\<forall>j < b. sims ! j < sims ! b"
    by blast+
  have "best_paragraph score m (paragraphs_of (content s)) query =
          Inr (truncate_text (paragraphs_of (content s) ! b))"
    using sc am b len by (simp add: best_paragraph_def)
  then have "refined_text (refine_section score m query s) =
          truncate_text (paragraphs_of (content s) ! b)"
    by (simp add: refine_section_def Let_def refined_text_make)
  with b le lt show ?thesis by blast
qed

text \<open>
  Claim C8. The refiner returns one subsection for each of the first ten sections it is
  given, and it is total: every exception of the loop body is a branch here. Splitting
  on the blank line loses nothing (joining the pieces gives the content back); the
  paragraphs are the stripped pieces of more than 100 characters, or the first 500
  characters of the content when no piece qualifies; when the scoring returns one
  similarity per paragraph, the refined text is cut from the first paragraph of largest
  similarity; a text of more than 300 characters is cut to 300 and gets the ellipsis.
\<close>

theorem generate_subsections_selects:
  "length (generate_subsections score m top_sections query) = min 10 (length top_sections)
   \<and> join_blank (split_blank c) = c
   \<and> ((\<exists>p \<in> set (split_blank c1). 100 < length (strip p)) \<longrightarrow>
        paragraphs_of c1 = map strip (filter (\<lambda>p. 100 < length (strip p)) (split_blank c1)))
   \<and> ((\<forall>p \<in> set (split_blank c2). length (strip p) \<le> 100) \<longrightarrow>
        paragraphs_of c2 = [take 500 c2])
   \<and> (i < min 10 (length top_sections) \<and>
        score m (paragraphs_of (content (top_sections ! i)) @ [query]) = Inr sims \<and>
        length sims = length (paragraphs_of (content (top_sections ! i))) \<longrightarrow>
        (\<exists>b < length sims.
           (\<forall>j < length sims. sims ! j \<le> sims ! b) \<and> (\<forall>j < b. sims ! j < sims ! b) \<and>
           refined_text (generate_subsections score m top_sections query ! i) =
             truncate_text (paragraphs_of (content (top_sections ! i)) ! b)))
   \<and> (length p1 \<le> 300 \<longrightarrow> truncate_text p1 = p1)
   \<and> (300 < length p2 \<longrightarrow> truncate_text p2 = take 300 p2 @ ''...'')"
proof (intro conjI impI)
  show "length (generate_subsections score m top_sections query) = min 10 (length top_sections)"
    by (rule length_generate_subsections)
  show "join_blank (split_blank c) = c" by (rule join_split_blank)
next
  assume "\<exists>p \<in> set (split_blank c1). 100 < length (strip p)"
  then show "paragraphs_of c1 = map strip (filter (\<lambda>p. 100 < length (strip p)) (split_blank c1))"
    by (rule paragraphs_of_some)
next
  assume "\<forall>p \<in> set (split_blank c2). length (strip p) \<le> 100"
  then show "paragraphs_of c2 = [take 500 c2]" by (rule paragraphs_of_none)
next
  assume h: "i < min 10 (length top_sections) \<and>
        score m (paragraphs_of (content (top_sections ! i)) @ [query]) = Inr sims \<and>
        length sims = length (paragraphs_of (content (top_sections ! i)))"
  then have "generate_subsections score m top_sections query ! i =
      refine_section score m query (top_sections ! i)"
    by (simp add: nth_generate_subsections)
  moreover from h have "\<exists>b < length sims. (\<forall>j < length sims. sims ! j \<le> sims ! b) \<and>
      (\<forall>j < b. sims ! j < sims ! b) \<and>
      refined_text (refine_section score m query (top_sections ! i)) =
        truncate_text (paragraphs_of (content (top_sections ! i)) ! b)"
    by (intro refine_section_best) simp_all
  ultimately show "\<exists>b < length sims.
           (\<forall>j < length sims. sims ! j \<le> sims ! b) \<and> (\<forall>j < b. sims ! j < sims ! b) \<and>
           refined_text (generate_subsections score m top_sections query ! i) =
             truncate_text (paragraphs_of (content (top_sections ! i)) ! b)"
    by simp
next
  assume "length p1 \<le> 300" then show "truncate_text p1 = p1" by (simp add: truncate_text_def)
next
  assume "300 < length p2" then show "truncate_text p2 = take 300 p2 @ ''...''"
    by (simp add: truncate_text_def)
qed

theorem generate_subsections_selects_witness:
  "paragraphs_of (replicate 101 (CHR ''a'')) = [replicate 101 (CHR ''a'')] \<and>
   paragraphs_of ''alpha'' = [''alpha''] \<and>
   (\<exists>b < 1. refined_text (generate_subsections (\<lambda>m ts. Inr [1 / 2]) () [demo_ranked] ''q'' ! 0) =
       truncate_text (paragraphs_of (content demo_ranked) ! b)) \<and>
   truncate_text ''alpha'' = ''alpha'' \<and>
   truncate_text (replicate 301 (CHR ''a'')) = replicate 300 (CHR ''a'') @ ''...''"
proof -
  let ?long = "replicate 101 (CHR ''a'')"
  have sp: "split_blank ?long = [?long]" by (rule split_blank_no_newline) simp
  have st: "strip ?long = ?long" by (rule strip_no_space) (simp add: is_space_def)
  have h1: "\<exists>p \<in> set (split_blank ?long). 100 < length (strip p)" by (simp add: sp st)
  have h2: "\<forall>p \<in> set (split_blank ''alpha''). length (strip p) \<le> 100"
    by (simp add: strip_def is_space_def)
  have c: "content demo_ranked = ''alpha''" by (simp add: demo_ranked_def)
  have h4: "length ''alpha'' \<le> 300" by simp
  have h5: "300 < length (replicate 301 (CHR ''a''))" by simp
  note t = generate_subsections_selects [where ?c1.0 = ?long and ?c2.0 = "''alpha''" and i = 0
      and top_sections = "[demo_ranked]" and score = "\<lambda>m ts. Inr [1 / 2]" and m = "()"
      and query = "''q''" and sims = "[1 / 2]" and ?p1.0 = "''alpha''"
      and ?p2.0 = "replicate 301 (CHR ''a'')"]
  from t h1 have a: "paragraphs_of ?long = [?long]" by (simp add: sp st)
  from t h2 have b: "paragraphs_of ''alpha'' = [''alpha'']" by simp
  have "\<exists>b < length [1 / 2 :: real].
           (\<forall>j < length [1 / 2 :: real]. [1 / 2 :: real] ! j \<le> [1 / 2] ! b) \<and>
           (\<forall>j < b. [1 / 2 :: real] ! j < [1 / 2] ! b) \<and>
           refined_text (generate_subsections (\<lambda>m ts. Inr [1 / 2]) () [demo_ranked] ''q'' ! 0) =
             truncate_text (paragraphs_of (content ([demo_ranked] ! 0)) ! b)"
    by (rule t [THEN conjunct2, THEN conjunct2, THEN conjunct2, THEN conjunct2, THEN conjunct1,
          THEN mp]) (simp add: c demo_paragraphs)
  then have d: "\<exists>b < 1. refined_text (generate_subsections (\<lambda>m ts. Inr [1 / 2]) () [demo_ranked] ''q'' ! 0) =
       truncate_text (paragraphs_of (content demo_ranked) ! b)" by auto
  from t h4 have e: "truncate_text ''alpha'' = ''alpha''" by blast
  from t h5 have f: "truncate_text (replicate 301 (CHR ''a'')) = replicate 300 (CHR ''a'') @ ''...''"
    by simp
  from a b d e f show ?thesis by blast
qed

text \<open>
  Claim C10. A subsection carries the document, the title and the page of its section;
  its refined text is a paragraph of that section (a stripped piece of the content, or
  its first 500 characters), whole when it has at most 300 characters and otherwise its
  first 300 characters followed by the ellipsis; it never exceeds 303 characters.
\<close>

theorem subsection_frame:
  assumes "i < min 10 (length top_sections)"
  shows "sub_document (generate_subsections score m top_sections query ! i) = document (top_sections ! i) \<and>
         sub_section_title (generate_subsections score m top_sections query ! i) =
           section_title (top_sections ! i) \<and>
         sub_page_number (generate_subsections score m top_sections query ! i) =
           page_number (top_sections ! i) \<and>
         (\<exists>p \<in> set (paragraphs_of (content (top_sections ! i))).
            (p = take 500 (content (top_sections ! i)) \<or>
             (\<exists>q \<in> set (split_blank (content (top_sections ! i))). p = strip q)) \<and>
            (if length p \<le> 300
             then refined_text (generate_subsections score m top_sections query ! i) = p
             else refined_text (generate_subsections score m top_sections query ! i) =
                    take 300 p @ ''...'')) \<and>
         length (refined_text (generate_subsections score m top_sections query ! i)) \<le> 303"
proof -
  let ?s = "top_sections ! i"
  let ?r = "refine_section score m query ?s"
  have eq: "generate_subsections score m top_sections query ! i = ?r"
    using assms by (rule nth_generate_subsections)
  obtain p where p: "p \<in> set (paragraphs_of (content ?s))" and r: "refined_text ?r = truncate_text p"
    using refine_section_from_paragraph [of ?s score m query] by blast
  from p have src: "p = take 500 (content ?s) \<or> (\<exists>q \<in> set (split_blank (content ?s)). p = strip q)"
    using paragraphs_of_cases [of p "content ?s"] by blast
  have tr: "if length p \<le> 300 then refined_text ?r = p else refined_text ?r = take 300 p @ ''...''"
    using r by (simp add: truncate_text_def)
  have len: "length (refined_text ?r) \<le> 303" unfolding r by (rule truncate_text_length)
  show ?thesis
    unfolding eq using refine_section_frame [of score m query ?s] p src tr len by blast
qed

theorem subsection_frame_witness:
  "0 < min 10 (length [demo_ranked]) \<and>
   sub_document (generate_subsections (\<lambda>m ts. Inr [1 / 2]) () [demo_ranked] ''q'' ! 0) = ''a.pdf'' \<and>
   sub_section_title (generate_subsections (\<lambda>m ts. Inr [1 / 2]) () [demo_ranked] ''q'' ! 0) = ''Intro'' \<and>
   sub_page_number (generate_subsections (\<lambda>m ts. Inr [1 / 2]) () [demo_ranked] ''q'' ! 0) = 1 \<and>
   length (refined_text (generate_subsections (\<lambda>m ts. Inr [1 / 2]) () [demo_ranked] ''q'' ! 0)) \<le> 303"
proof -
  have h: "0 < min 10 (length [demo_ranked])" by simp
  from subsection_frame [OF h, of "\<lambda>m ts. Inr [1 / 2]" "()" "''q''"] h show ?thesis
    by (simp add: demo_ranked_def)
qed

section \<open>The section segmenter\<close>

lemma dropWhile_hd: "xs = [] \<or> \<not> P (hd xs) \<Longrightarrow> dropWhile P xs = xs"
  by (cases xs) auto

lemma strip_idem: "strip (strip s) = strip s"
proof -
  let ?t = "dropWhile is_space s"
  let ?u = "rev (dropWhile is_space (rev ?t))"
  have u: "strip s = ?u" by (simp add: strip_def)
  have pre: "?u = take (length ?t - length (takeWhile is_space (rev ?t))) ?t"
    by (simp add: dropWhile_eq_drop [of is_space "rev ?t"] rev_drop)
  have "?u = [] \<or> \<not> is_space (hd ?u)"
  proof (cases "?u = []")
    case True
    then show ?thesis by (rule disjI1)
  next
    case False
    have "?t \<noteq> []"
    proof
      assume a: "?t = []"
      have "?u = []" unfolding a by simp
      with False show False by (rule notE)
    qed
    then have "\<not> is_space (hd ?t)" by (rule hd_dropWhile)
    moreover have "hd ?u = hd ?t" using False pre by (metis hd_take take_eq_Nil neq0_conv)
    ultimately show ?thesis by simp
  qed
  then have front: "dropWhile is_space ?u = ?u" by (rule dropWhile_hd)
  have rear: "dropWhile is_space (rev ?u) = rev ?u" by simp
  have "strip ?u = rev (dropWhile is_space (rev (dropWhile is_space ?u)))"
    by (simp only: strip_def)
  also have "\<dots> = rev (dropWhile is_space (rev ?u))" by (simp only: front)
  also have "\<dots> = ?u" by (simp add: dropWhile_idem)
  finally show ?thesis by (simp only: u)
qed

lemma content_emit_section: "content (emit_section doc_name cur) = strip (cur_content cur)"
  by (simp add: emit_section_def)

lemma title_emit_section:
  "section_title (emit_section doc_name cur) =
     (if cur_title cur = [] then ''Untitled Section'' else cur_title cur)"
  by (simp add: emit_section_def)

lemma process_block_sections:
  "fst (process_block doc_name (sections, cur) pb) = sections \<or>
   (fst (process_block doc_name (sections, cur) pb) = sections @ [emit_section doc_name cur] \<and>
    50 < length (strip (cur_content cur)))"
  by (cases pb) (auto simp add: process_block_def Let_def split: block.splits)

lemma run_blocks_snoc:
  "run_blocks doc_name (bs @ [b]) = process_block doc_name (run_blocks doc_name bs) b"
  by (simp add: run_blocks_def)

lemma run_blocks_emitted:
  "\<forall>s \<in> set (fst (run_blocks doc_name bs)).
     \<exists>k \<le> length bs. s = emit_section doc_name (snd (run_blocks doc_name (take k bs))) \<and>
       50 < length (strip (cur_content (snd (run_blocks doc_name (take k bs)))))"
proof (induction bs rule: rev_induct)
  case Nil
  then show ?case by (simp add: run_blocks_def)
next
  case (snoc b bs)
  obtain sections cur where st: "run_blocks doc_name bs = (sections, cur)"
    by (cases "run_blocks doc_name bs")
  show ?case
  proof
    fix s
    assume s: "s \<in> set (fst (run_blocks doc_name (bs @ [b])))"
    have step: "fst (run_blocks doc_name (bs @ [b])) = sections \<or>
        (fst (run_blocks doc_name (bs @ [b])) = sections @ [emit_section doc_name cur] \<and>
         50 < length (strip (cur_content cur)))"
      unfolding run_blocks_snoc st by (rule process_block_sections)
    have old: "s \<in> set sections \<Longrightarrow>
        \<exists>k \<le> length (bs @ [b]). s = emit_section doc_name (snd (run_blocks doc_name (take k (bs @ [b])))) \<and>
          50 < length (strip (cur_content (snd (run_blocks doc_name (take k (bs @ [b]))))))"
    proof -
      assume "s \<in> set sections"
      with snoc.IH st obtain k where k: "k \<le> length bs"
        and e: "s = emit_section doc_name (snd (run_blocks doc_name (take k bs)))"
        and l: "50 < length (strip (cur_content (snd (run_blocks doc_name (take k bs)))))"
        by auto
      from k have "take k (bs @ [b]) = take k bs" by simp
      with k e l show ?thesis by (intro exI [of _ k]) simp
    qed
    have new: "s = emit_section doc_name cur \<Longrightarrow> 50 < length (strip (cur_content cur)) \<Longrightarrow>
        \<exists>k \<le> length (bs @ [b]). s = emit_section doc_name (snd (run_blocks doc_name (take k (bs @ [b])))) \<and>
          50 < length (strip (cur_content (snd (run_blocks doc_name (take k (bs @ [b]))))))"
      by (intro exI [of _ "length bs"]) (simp add: st)
    from s step old new
    show "\<exists>k \<le> length (bs @ [b]). s = emit_section doc_name (snd (run_blocks doc_name (take k (bs @ [b])))) \<and>
          50 < length (strip (cur_content (snd (run_blocks doc_name (take k (bs @ [b]))))))"
      by auto
  qed
qed

lemma extract_sections_emitted:
  assumes "s \<in> set (extract_sections_from_document doc doc_name)"
  shows "\<exists>k \<le> length (numbered_blocks doc).
           s = emit_section doc_name (snd (run_blocks doc_name (take k (numbered_blocks doc)))) \<and>
           50 < length (strip (cur_content (snd (run_blocks doc_name (take k (numbered_blocks doc))))))"
proof -
  let ?bs = "numbered_blocks doc"
  obtain sections cur where st: "run_blocks doc_name ?bs = (sections, cur)"
    by (cases "run_blocks doc_name ?bs")
  from assms st have "s \<in> set sections \<or> (s = emit_section doc_name cur \<and> 50 < length (strip (cur_content cur)))"
    by (auto simp add: extract_sections_from_document_def split: if_splits)
  then show ?thesis
  proof
    assume "s \<in> set sections"
    then show ?thesis using run_blocks_emitted [of doc_name ?bs] st by simp
  next
    assume "s = emit_section doc_name cur \<and> 50 < length (strip (cur_content cur))"
    then show ?thesis by (intro exI [of _ "length ?bs"]) (simp add: st)
  qed
qed

text \<open>
  Claim C7. Every section the segmenter returns, the one flushed at the end of the
  document included, has a stripped content of more than 50 characters; it is the
  section emitted from the accumulator reached after some number \<open>k\<close> of blocks, and
  its title is \<^verbatim>\<open>Untitled Section\<close> when that accumulator holds no title (and the
  accumulator's title otherwise).
\<close>

theorem emitted_sections_long_enough:
  "\<forall>s \<in> set (extract_sections_from_document doc doc_name).
     50 < length (strip (content s)) \<and>
     (\<exists>k \<le> length (numbered_blocks doc).
        s = emit_section doc_name (snd (run_blocks doc_name (take k (numbered_blocks doc)))) \<and>
        50 < length (strip (cur_content (snd (run_blocks doc_name (take k (numbered_blocks doc)))))) \<and>
        (if cur_title (snd (run_blocks doc_name (take k (numbered_blocks doc)))) = []
         then section_title s = ''Untitled Section''
         else section_title s = cur_title (snd (run_blocks doc_name (take k (numbered_blocks doc))))))"
proof
  fix s
  assume "s \<in> set (extract_sections_from_document doc doc_name)"
  then obtain k where k: "k \<le> length (numbered_blocks doc)"
    and e: "s = emit_section doc_name (snd (run_blocks doc_name (take k (numbered_blocks doc))))"
    and l: "50 < length (strip (cur_content (snd (run_blocks doc_name (take k (numbered_blocks doc))))))"
    using extract_sections_emitted by blast
  have "50 < length (strip (content s))"
    using l unfolding e by (simp add: content_emit_section strip_idem)
  moreover have "if cur_title (snd (run_blocks doc_name (take k (numbered_blocks doc)))) = []
         then section_title s = ''Untitled Section''
         else section_title s = cur_title (snd (run_blocks doc_name (take k (numbered_blocks doc))))"
    unfolding e by (simp add: title_emit_section)
  ultimately show "50 < length (strip (content s)) \<and>
     (\<exists>k \<le> length (numbered_blocks doc).
        s = emit_section doc_name (snd (run_blocks doc_name (take k (numbered_blocks doc)))) \<and>
        50 < length (strip (cur_content (snd (run_blocks doc_name (take k (numbered_blocks doc)))))) \<and>
        (if cur_title (snd (run_blocks doc_name (take k (numbered_blocks doc)))) = []
         then section_title s = ''Untitled Section''
         else section_title s = cur_title (snd (run_blocks doc_name (take k (numbered_blocks doc))))))"
    using k e l by blast
qed

lemma demo_extract: "extract_sections_from_document demo_doc ''a.pdf'' = [demo_emitted]"
  by code_simp

theorem emitted_sections_long_enough_witness:
  "demo_emitted \<in> set (extract_sections_from_document demo_doc ''a.pdf'') \<and>
   50 < length (strip (content demo_emitted)) \<and>
   section_title demo_emitted = ''Untitled Section''"
proof -
  have m: "demo_emitted \<in> set (extract_sections_from_document demo_doc ''a.pdf'')"
    by (simp add: demo_extract)
  from emitted_sections_long_enough [of demo_doc "''a.pdf''"] m
  have "50 < length (strip (content demo_emitted))" by blast
  moreover have "section_title demo_emitted = ''Untitled Section''"
    by (simp add: demo_emitted_def)
  ultimately show ?thesis using m by blast
qed

text \<open>
  Claim C6. The claim computes the bold flag of a block over all the spans of the
  block. The source reads the variable \<^verbatim>\<open>line_flags\<close> after the loop over the lines,
  where it holds the flags of the last line only. A short block whose first line is
  bold and whose last line is not has a bold span, and is not classified as a heading.
\<close>

theorem heading_bold_from_last_line_only:
  "block_text_of bold_first_line_block = ''Key findings \<newline>of the study'' \<and>
   length (block_text_of bold_first_line_block) < 100 \<and>
   any_bold (concat (map line_flags bold_first_line_block)) \<and>
   \<not> any_bold (flags_after_loop bold_first_line_block) \<and>
   \<not> is_heading_block bold_first_line_block"
  by code_simp

section \<open>Title resolution\<close>

lemma hd_insort_key:
  "hd (insort_key k x ys) = (if ys = [] \<or> k x \<le> k (hd ys) then x else hd ys)"
  by (cases ys) simp_all

lemma sort_key_nonempty: "xs \<noteq> [] \<Longrightarrow> sort_key k xs \<noteq> []"
  by (cases xs) (simp_all add: insort_not_Nil)

lemma hd_sort_key_first_least:
  "xs \<noteq> [] \<Longrightarrow>
     \<exists>i < length xs. hd (sort_key k xs) = xs ! i \<and>
       (\<forall>j < length xs. k (xs ! i) \<le> k (xs ! j)) \<and> (\<forall>j < i. k (xs ! i) < k (xs ! j))"
proof (induction xs)
  case Nil
  then show ?case by simp
next
  case (Cons x xs)
  show ?case
  proof (cases "xs = []")
    case True
    then show ?thesis by simp
  next
    case False
    with Cons.IH obtain i where i: "i < length xs" and h: "hd (sort_key k xs) = xs ! i"
      and le: "\<forall>j < length xs. k (xs ! i) \<le> k (xs ! j)"
      and lt: "\<forall>j < i. k (xs ! i) < k (xs ! j)" by blast
    have ne: "sort_key k xs \<noteq> []" using False by (rule sort_key_nonempty)
    show ?thesis
    proof (cases "k x \<le> k (xs ! i)")
      case True
      have "hd (sort_key k (x # xs)) = (x # xs) ! 0"
        using True h by (simp add: hd_insort_key)
      moreover have "\<forall>j < length (x # xs). k ((x # xs) ! 0) \<le> k ((x # xs) ! j)"
      proof (intro allI impI)
        fix j assume "j < length (x # xs)"
        then show "k ((x # xs) ! 0) \<le> k ((x # xs) ! j)"
          using True le by (cases j) (auto intro: order_trans)
      qed
      ultimately show ?thesis by (intro exI [of _ 0]) simp
    next
      case False
      then have strict: "k (xs ! i) < k x" by simp
      have "hd (sort_key k (x # xs)) = (x # xs) ! Suc i"
        using False h ne by (simp add: hd_insort_key)
      moreover have "\<forall>j < length (x # xs). k ((x # xs) ! Suc i) \<le> k ((x # xs) ! j)"
      proof (intro allI impI)
        fix j assume "j < length (x # xs)"
        then show "k ((x # xs) ! Suc i) \<le> k ((x # xs) ! j)"
          using strict le by (cases j) auto
      qed
      moreover have "\<forall>j < Suc i. k ((x # xs) ! Suc i) < k ((x # xs) ! j)"
      proof (intro allI impI)
        fix j assume "j < Suc i"
        then show "k ((x # xs) ! Suc i) < k ((x # xs) ! j)"
          using strict lt by (cases j) auto
      qed
      ultimately show ?thesis using i by (intro exI [of _ "Suc i"]) simp
    qed
  qed
qed

lemma line_candidates_concat:
  "concat (map (\<lambda>line. concat (map (span_candidate pg) (spans line))) (lines :: layout_line list))
     = concat (map (span_candidate pg) (concat (map spans lines)))"
  by (induction lines) simp_all

lemma title_candidates_page_spans:
  "title_candidates pg = concat (map (span_candidate pg) (page_spans pg))"
proof -
  have "concat (map (\<lambda>block. case block of OtherBlock \<Rightarrow> []
            | TextBlock lines \<Rightarrow> concat (map (\<lambda>line. concat (map (span_candidate pg) (spans line))) lines)) bs)
        = concat (map (span_candidate pg) (concat (map (\<lambda>block. case block of OtherBlock \<Rightarrow> []
            | TextBlock lines \<Rightarrow> concat (map spans lines)) bs)))" for bs
    by (induction bs) (simp_all add: line_candidates_concat split: block.splits)
  then show ?thesis by (simp add: title_candidates_def page_spans_def)
qed

lemma span_candidate_filter:
  "concat (map (span_candidate pg) sps) =
     map (\<lambda>sp. (strip (span_text sp), span_size sp, fst (snd (span_bbox sp))))
       (filter (\<lambda>sp. fst (snd (span_bbox sp)) < rect_height pg * (4 / 10) \<and>
                      5 < length (strip (span_text sp))) sps)"
  by (induction sps) (simp_all add: span_candidate_def Let_def)

lemma title_candidates_filter:
  "title_candidates pg =
     map (\<lambda>sp. (strip (span_text sp), span_size sp, fst (snd (span_bbox sp))))
       (filter (\<lambda>sp. fst (snd (span_bbox sp)) < rect_height pg * (4 / 10) \<and>
                      5 < length (strip (span_text sp)))
          (page_spans pg))"
  unfolding title_candidates_page_spans by (rule span_candidate_filter)

lemma trim_decomposition:
  "\<exists>pre post. t = pre @ strip_trailing_non_alnum (strip_leading_non_alnum t) @ post \<and>
     (\<forall>c \<in> set pre. \<not> is_alnum c) \<and> (\<forall>c \<in> set post. \<not> is_alnum c)"
proof -
  let ?P = "\<lambda>c. \<not> is_alnum c"
  let ?m = "dropWhile ?P t"
  have a: "t = takeWhile ?P t @ ?m" by simp
  have b: "?m = rev (dropWhile ?P (rev ?m)) @ rev (takeWhile ?P (rev ?m))"
    by (metis rev_append rev_rev_ident takeWhile_dropWhile_id)
  have c: "\<forall>c \<in> set (takeWhile ?P t). ?P c" by (auto dest: set_takeWhileD)
  have d: "\<forall>c \<in> set (rev (takeWhile ?P (rev ?m))). ?P c" by (auto dest: set_takeWhileD)
  have "t = takeWhile ?P t @ rev (dropWhile ?P (rev ?m)) @ rev (takeWhile ?P (rev ?m))"
    using a b by metis
  then show ?thesis
    unfolding strip_trailing_non_alnum_def strip_leading_non_alnum_def using c d by blast
qed

lemma title_key_le:
  "((case a of (t, font_size, y) \<Rightarrow> (- font_size, y)) \<le> (case b of (t, font_size, y) \<Rightarrow> (- font_size, y)))
     = (fst (snd b) < fst (snd a) \<or> (fst (snd b) = fst (snd a) \<and> snd (snd a) \<le> snd (snd b)))"
  for a b :: "string \<times> real \<times> real"
  by (cases a, cases b) (auto simp add: less_eq_prod_def)

lemma title_key_less:
  "((case a of (t, font_size, y) \<Rightarrow> (- font_size, y)) < (case b of (t, font_size, y) \<Rightarrow> (- font_size, y)))
     = (fst (snd b) < fst (snd a) \<or> (fst (snd b) = fst (snd a) \<and> snd (snd a) < snd (snd b)))"
  for a b :: "string \<times> real \<times> real"
  by (cases a, cases b) (auto simp add: less_prod_def)

lemma extract_title_metadata:
  "3 < length (stripped_metadata_title doc) \<Longrightarrow> extract_title doc = stripped_metadata_title doc"
  by (auto simp add: extract_title_def Let_def)

lemma extract_title_unknown:
  "length (stripped_metadata_title doc) \<le> 3 \<Longrightarrow>
   pages doc = [] \<or> (\<exists>pg rest. pages doc = pg # rest \<and> title_candidates pg = []) \<Longrightarrow>
     extract_title doc = ''Unknown Document''"
  by (auto simp add: extract_title_def Let_def)

lemma extract_title_heuristic:
  assumes mt: "length (stripped_metadata_title doc) \<le> 3"
    and pg: "pages doc = pg # rest"
    and ne: "title_candidates pg \<noteq> []"
  shows "\<exists>i < length (title_candidates pg).
           (\<forall>j < length (title_candidates pg).
              fst (snd (title_candidates pg ! j)) < fst (snd (title_candidates pg ! i)) \<or>
              (fst (snd (title_candidates pg ! j)) = fst (snd (title_candidates pg ! i)) \<and>
               snd (snd (title_candidates pg ! i)) \<le> snd (snd (title_candidates pg ! j)))) \<and>
           (\<forall>j < i.
              fst (snd (title_candidates pg ! j)) < fst (snd (title_candidates pg ! i)) \<or>
              (fst (snd (title_candidates pg ! j)) = fst (snd (title_candidates pg ! i)) \<and>
               snd (snd (title_candidates pg ! i)) < snd (snd (title_candidates pg ! j)))) \<and>
           extract_title doc =
             (if 3 < length (strip_trailing_non_alnum (strip_leading_non_alnum
                               (fst (title_candidates pg ! i))))
              then strip_trailing_non_alnum (strip_leading_non_alnum (fst (title_candidates pg ! i)))
              else ''Unknown Document'')"
proof -
  let ?k = "\<lambda>(t :: string, font_size :: real, y :: real). (- font_size, y)"
  let ?c = "title_candidates pg"
  from hd_sort_key_first_least [OF ne, of ?k] obtain i where i: "i < length ?c"
    and h: "hd (sort_key ?k ?c) = ?c ! i"
    and le: "\<forall>j < length ?c. ?k (?c ! i) \<le> ?k (?c ! j)"
    and lt: "\<forall>j < i. ?k (?c ! i) < ?k (?c ! j)" by blast
  have res: "extract_title doc =
             (if 3 < length (strip_trailing_non_alnum (strip_leading_non_alnum (fst (?c ! i))))
              then strip_trailing_non_alnum (strip_leading_non_alnum (fst (?c ! i)))
              else ''Unknown Document'')"
    using mt pg ne h by (auto simp add: extract_title_def Let_def)
  from le have le': "\<forall>j < length ?c.
              fst (snd (?c ! j)) < fst (snd (?c ! i)) \<or>
              (fst (snd (?c ! j)) = fst (snd (?c ! i)) \<and> snd (snd (?c ! i)) \<le> snd (snd (?c ! j)))"
    by (simp only: title_key_le)
  from lt have lt': "\<forall>j < i.
              fst (snd (?c ! j)) < fst (snd (?c ! i)) \<or>
              (fst (snd (?c ! j)) = fst (snd (?c ! i)) \<and> snd (snd (?c ! i)) < snd (snd (?c ! j)))"
    by (simp only: title_key_less)
  from i le' lt' res show ?thesis by blast
qed

text \<open>
  Claim C4, as amended. The title is the metadata title stripped of surrounding
  whitespace when the stripped title has more than 3 characters. Otherwise, without a
  first page or without a candidate on it, it is \<^verbatim>\<open>Unknown Document\<close>; with
  candidates, the winner is the first candidate, in reading order, of largest font size
  and among those of smallest top edge, and the title is the winner's text without its
  leading and trailing non-alphanumeric characters when more than 3 characters remain,
  and \<^verbatim>\<open>Unknown Document\<close> otherwise. The candidates are the spans of the first page
  whose top edge is above 40 percent of the page height and whose stripped text has
  more than 5 characters.
\<close>

theorem extract_title_resolution:
  "(3 < length (stripped_metadata_title doc) \<longrightarrow> extract_title doc = stripped_metadata_title doc)
   \<and> (length (stripped_metadata_title doc) \<le> 3 \<and>
        (pages doc = [] \<or> (\<exists>pg rest. pages doc = pg # rest \<and> title_candidates pg = [])) \<longrightarrow>
        extract_title doc = ''Unknown Document'')
   \<and> (length (stripped_metadata_title doc) \<le> 3 \<and> pages doc = pg # rest \<and>
        title_candidates pg \<noteq> [] \<longrightarrow>
        (\<exists>i < length (title_candidates pg).
           (\<forall>j < length (title_candidates pg).
              fst (snd (title_candidates pg ! j)) < fst (snd (title_candidates pg ! i)) \<or>
              (fst (snd (title_candidates pg ! j)) = fst (snd (title_candidates pg ! i)) \<and>
               snd (snd (title_candidates pg ! i)) \<le> snd (snd (title_candidates pg ! j)))) \<and>
           (\<forall>j < i.
              fst (snd (title_candidates pg ! j)) < fst (snd (title_candidates pg ! i)) \<or>
              (fst (snd (title_candidates pg ! j)) = fst (snd (title_candidates pg ! i)) \<and>
               snd (snd (title_candidates pg ! i)) < snd (snd (title_candidates pg ! j)))) \<and>
           extract_title doc =
             (if 3 < length (strip_trailing_non_alnum (strip_leading_non_alnum
                               (fst (title_candidates pg ! i))))
              then strip_trailing_non_alnum (strip_leading_non_alnum (fst (title_candidates pg ! i)))
              else ''Unknown Document'')))
   \<and> title_candidates pg' =
        map (\<lambda>sp. (strip (span_text sp), span_size sp, fst (snd (span_bbox sp))))
          (filter (\<lambda>sp. fst (snd (span_bbox sp)) < rect_height pg' * (4 / 10) \<and>
                         5 < length (strip (span_text sp)))
             (page_spans pg'))
   \<and> (\<exists>pre post. t = pre @ strip_trailing_non_alnum (strip_leading_non_alnum t) @ post \<and>
          (\<forall>c \<in> set pre. \<not> is_alnum c) \<and> (\<forall>c \<in> set post. \<not> is_alnum c))"
  using extract_title_metadata [of doc] extract_title_unknown [of doc]
    extract_title_heuristic [of doc pg rest] title_candidates_filter [of pg']
    trim_decomposition [of t]
  by blast

lemma titled_doc_meta: "stripped_metadata_title titled_doc = ''My Paper''"
  by code_simp

lemma padded_doc_meta: "stripped_metadata_title padded_title_doc = ''ab''"
  by code_simp

lemma cover_doc_meta: "stripped_metadata_title cover_doc = []"
  by code_simp

lemma cover_candidates:
  "title_candidates cover_page =
     [(''a smaller subtitle'', 12, 40), (''** Annual Report 2024 **'', 24, 90)]"
  by code_simp

theorem extract_title_resolution_witness:
  "extract_title titled_doc = ''My Paper'' \<and>
   extract_title padded_title_doc = ''Unknown Document'' \<and>
   (\<exists>i < length (title_candidates cover_page).
      extract_title cover_doc =
        (if 3 < length (strip_trailing_non_alnum (strip_leading_non_alnum
                          (fst (title_candidates cover_page ! i))))
         then strip_trailing_non_alnum (strip_leading_non_alnum (fst (title_candidates cover_page ! i)))
         else ''Unknown Document''))"
proof -
  have a: "extract_title titled_doc = ''My Paper''"
    using extract_title_resolution [of titled_doc] by (simp add: titled_doc_meta)
  have "pages padded_title_doc = []" by (simp add: padded_title_doc_def)
  then have b: "extract_title padded_title_doc = ''Unknown Document''"
    using extract_title_resolution [of padded_title_doc] by (simp add: padded_doc_meta)
  have h: "length (stripped_metadata_title cover_doc) \<le> 3 \<and> pages cover_doc = cover_page # [] \<and>
      title_candidates cover_page \<noteq> []"
    by (simp add: cover_doc_meta cover_candidates) (simp add: cover_doc_def)
  have c: "\<exists>i < length (title_candidates cover_page).
      extract_title cover_doc =
        (if 3 < length (strip_trailing_non_alnum (strip_leading_non_alnum
                          (fst (title_candidates cover_page ! i))))
         then strip_trailing_non_alnum (strip_leading_non_alnum (fst (title_candidates cover_page ! i)))
         else ''Unknown Document'')"
    using extract_title_resolution [of cover_doc cover_page "[]", THEN conjunct2, THEN conjunct2,
        THEN conjunct1, THEN mp, OF h]
    by blast
  from a b c show ?thesis by blast
qed

text \<open>
  Claim C4 as stated fails: a metadata title of 6 characters, four of them spaces, is
  present and longer than 3, and is not returned.
\<close>

theorem metadata_title_not_verbatim:
  "metadata_title padded_title_doc = Some ''  ab  '' \<and> 3 < length ''  ab  '' \<and>
   extract_title padded_title_doc \<noteq> ''  ab  ''"
  by code_simp

end
